theory Spec2Isabelle
  imports Main "HOL-Library.Multiset"
begin

section \<open>resultgroup: a task group collecting results and errors\<close>

text \<open>
  The development follows \<^verbatim>\<open>group.go\<close> and \<^verbatim>\<open>error.go\<close>. The Group's
  mutex makes \<^verbatim>\<open>handleErrors\<close>, \<^verbatim>\<open>appendResults\<close> and the body of
  \<^verbatim>\<open>Wait\<close> atomic, so each is a function on the state of the Group; a run of the
  program is the sequence in which these functions are applied. Whatever lies outside
  the Group (the cancellation contexts of the standard library) is a second state
  component, the \<open>world\<close>, threaded through the calls.
\<close>

subsection \<open>The cancellation contexts of the standard library\<close>

text \<open>
  \<^verbatim>\<open>context.WithCancel(parent)\<close> returns a fresh context derived from \<open>parent\<close>
  together with the function that cancels it. A context is identified by a number; the
  world hands out the numbers and keeps the log of every invocation of a cancel
  function, oldest first. Calling a nil function value panics in Go.
\<close>

datatype Context = Background | WithCancelCtx nat Context

datatype cancelFunc = CancelFunc nat

datatype panic = Panic string | NilFuncCall

record world =
  next_ctx :: nat
  cancel_calls :: "cancelFunc list"

definition context_WithCancel :: "Context \<Rightarrow> world \<Rightarrow> (Context \<times> cancelFunc) \<times> world" where
  "context_WithCancel parent w =
     ((WithCancelCtx (next_ctx w) parent, CancelFunc (next_ctx w)),
      w\<lparr>next_ctx := next_ctx w + 1\<rparr>)"

definition call :: "cancelFunc option \<Rightarrow> world \<Rightarrow> panic + world" where
  "call f w =
     (case f of
        None \<Rightarrow> Inl NilFuncCall
      | Some c \<Rightarrow> Inr (w\<lparr>cancel_calls := cancel_calls w @ [c]\<rparr>))"

text \<open>A context is done once its own cancel function, or that of an ancestor, has run.\<close>

fun ctx_done :: "world \<Rightarrow> Context \<Rightarrow> bool" where
  "ctx_done w Background = False"
| "ctx_done w (WithCancelCtx i parent) =
     (CancelFunc i \<in> set (cancel_calls w) \<or> ctx_done w parent)"

subsection \<open>The aggregate error (error.go)\<close>

text \<open>
  A component error is a value of any type \<open>'e\<close>; its \<^verbatim>\<open>Error()\<close> method is the
  function \<open>msg\<close>. The loop of \<^verbatim>\<open>multiError.Error\<close> runs over the components with
  their index \<open>i\<close> and the byte buffer \<open>b\<close>.
\<close>

datatype 'e multiError = MultiError (multiError_errs: "'e list")

fun Error_loop :: "('e \<Rightarrow> string) \<Rightarrow> nat \<Rightarrow> 'e list \<Rightarrow> string \<Rightarrow> string" where
  "Error_loop msg i [] b = b"
| "Error_loop msg i (err # rest) b =
     Error_loop msg (i + 1) rest ((if i > 0 then b @ [CHR 0x0A] else b) @ msg err)"

definition Error :: "('e \<Rightarrow> string) \<Rightarrow> 'e multiError \<Rightarrow> string" where
  "Error msg me = Error_loop msg 0 (multiError_errs me) []"

definition Unwrap :: "'e multiError \<Rightarrow> 'e list" where
  "Unwrap me = multiError_errs me"

text \<open>
  The specification's wording of the message: the components' messages joined by a
  newline separator, in order.
\<close>

fun join_newline :: "string list \<Rightarrow> string" where
  "join_newline [] = []"
| "join_newline [m] = m"
| "join_newline (m # n # ms) = m @ [CHR 0x0A] @ join_newline (n # ms)"

subsection \<open>The Group (group.go)\<close>

text \<open>
  The fields of the struct, the mutex apart. \<open>wg\<close> is the counter of the
  \<^verbatim>\<open>sync.WaitGroup\<close>; \<open>cancel\<close> is \<open>None\<close> for the nil function value;
  \<open>threshold\<close> is Go's \<^verbatim>\<open>int\<close>, on which the code only compares.
\<close>

record ('e, 'a) Group =
  errs :: "'e list"
  wg :: nat
  cancel :: "cancelFunc option"
  threshold :: int
  results :: "'a list"

text \<open>The zero value \<^verbatim>\<open>Group[T]{}\<close>.\<close>

definition zero_Group :: "('e, 'a) Group" where
  "zero_Group = \<lparr>errs = [], wg = 0, cancel = None, threshold = 0, results = []\<rparr>"

definition WithErrorsThreshold ::
  "Context \<Rightarrow> int \<Rightarrow> world \<Rightarrow> panic + (('e, 'a) Group \<times> Context \<times> world)" where
  "WithErrorsThreshold ctx t w =
     (if t < 1 then Inl (Panic ''threshold must be greater than or equal to 1'')
      else (case context_WithCancel ctx w of
              ((ctx', cancel'), w') \<Rightarrow>
                Inr (\<lparr>errs = [], wg = 0, cancel = Some cancel', threshold = t, results = []\<rparr>,
                     ctx', w')))"

definition handleErrors ::
  "('e, 'a) Group \<Rightarrow> 'e \<Rightarrow> world \<Rightarrow> panic + (('e, 'a) Group \<times> world)" where
  "handleErrors g err w =
     (let g1 = (if threshold g = 0 \<or> int (length (errs g)) < threshold g
                then g\<lparr>errs := errs g @ [err]\<rparr> else g)
      in if int (length (errs g1)) = threshold g1
         then (if cancel g1 \<noteq> None
               then (case call (cancel g1) w of
                       Inl p \<Rightarrow> Inl p
                     | Inr w1 \<Rightarrow> Inr (g1, w1))
               else Inr (g1, w))
         else Inr (g1, w))"

definition appendResults :: "('e, 'a) Group \<Rightarrow> 'a list \<Rightarrow> ('e, 'a) Group" where
  "appendResults g res = g\<lparr>results := results g @ res\<rparr>"

text \<open>\<open>err\<close> is \<open>None\<close> for a nil error; a nil slice \<open>res\<close> is the empty list.\<close>

definition processResult ::
  "('e, 'a) Group \<Rightarrow> 'a list \<Rightarrow> 'e option \<Rightarrow> world \<Rightarrow> panic + (('e, 'a) Group \<times> world)" where
  "processResult g res err w =
     (case err of
        None \<Rightarrow> Inr (appendResults g res, w)
      | Some e \<Rightarrow>
          (case handleErrors g e w of
             Inl p \<Rightarrow> Inl p
           | Inr (g1, w1) \<Rightarrow> Inr (appendResults g1 res, w1)))"

text \<open>
  \<^verbatim>\<open>Go\<close> has two halves. The caller's half adds one to the WaitGroup. The goroutine's
  half receives what the unit \<open>f\<close> returned, processes it and, deferred, calls
  \<^verbatim>\<open>wg.Done()\<close>, which panics on a counter that is already zero.
\<close>

definition Go :: "('e, 'a) Group \<Rightarrow> ('e, 'a) Group" where
  "Go g = g\<lparr>wg := wg g + 1\<rparr>"

definition wg_Done :: "('e, 'a) Group \<Rightarrow> panic + ('e, 'a) Group" where
  "wg_Done g =
     (if wg g = 0 then Inl (Panic ''sync: negative WaitGroup counter'')
      else Inr (g\<lparr>wg := wg g - 1\<rparr>))"

definition goroutine ::
  "('e, 'a) Group \<Rightarrow> 'a list \<times> 'e option \<Rightarrow> world \<Rightarrow> panic + (('e, 'a) Group \<times> world)" where
  "goroutine g out w =
     (case processResult g (fst out) (snd out) w of
        Inl p \<Rightarrow> Inl p
      | Inr (g1, w1) \<Rightarrow>
          (case wg_Done g1 of
             Inl p \<Rightarrow> Inl p
           | Inr g2 \<Rightarrow> Inr (g2, w1)))"

text \<open>
  \<^verbatim>\<open>Wait\<close> blocks in \<^verbatim>\<open>wg.Wait()\<close> while the counter is not zero: \<open>None\<close>.
  Once it is zero, the call returns the results and the aggregate error, \<open>None\<close> for
  the nil interface value.
\<close>

definition Wait ::
  "('e, 'a) Group \<Rightarrow> world \<Rightarrow> (panic + (('a list \<times> 'e multiError option) \<times> world)) option" where
  "Wait g w =
     (if wg g \<noteq> 0 then None
      else Some
        (case (if cancel g \<noteq> None then call (cancel g) w else Inr w) of
           Inl p \<Rightarrow> Inl p
         | Inr w1 \<Rightarrow>
             (if length (errs g) = 0 then Inr ((results g, None), w1)
              else Inr ((results g, Some (MultiError (errs g))), w1))))"

subsection \<open>Runs\<close>

text \<open>A sequence of error reports, each handled by \<open>handleErrors\<close>, in order.\<close>

fun report_errors ::
  "('e, 'a) Group \<Rightarrow> 'e list \<Rightarrow> world \<Rightarrow> panic + (('e, 'a) Group \<times> world)" where
  "report_errors g [] w = Inr (g, w)"
| "report_errors g (e # es) w =
     (case handleErrors g e w of
        Inl p \<Rightarrow> Inl p
      | Inr (g1, w1) \<Rightarrow> report_errors g1 es w1)"

text \<open>Launching \<open>n\<close> units, and the goroutines finishing in a given order.\<close>

fun launch :: "nat \<Rightarrow> ('e, 'a) Group \<Rightarrow> ('e, 'a) Group" where
  "launch 0 g = g"
| "launch (Suc n) g = launch n (Go g)"

fun complete ::
  "('e, 'a) Group \<Rightarrow> ('a list \<times> 'e option) list \<Rightarrow> world \<Rightarrow> panic + (('e, 'a) Group \<times> world)" where
  "complete g [] w = Inr (g, w)"
| "complete g (out # outs) w =
     (case goroutine g out w of
        Inl p \<Rightarrow> Inl p
      | Inr (g1, w1) \<Rightarrow> complete g1 outs w1)"

section \<open>Helper lemmas\<close>

subsection \<open>One error report\<close>

lemma handleErrors_some:
  assumes "cancel g = Some c"
  shows "handleErrors g e w =
     (if threshold g = 0 \<or> int (length (errs g)) < threshold g
      then (if int (length (errs g)) + 1 = threshold g
            then Inr (g\<lparr>errs := errs g @ [e]\<rparr>, w\<lparr>cancel_calls := cancel_calls w @ [c]\<rparr>)
            else Inr (g\<lparr>errs := errs g @ [e]\<rparr>, w))
      else (if int (length (errs g)) = threshold g
            then Inr (g, w\<lparr>cancel_calls := cancel_calls w @ [c]\<rparr>)
            else Inr (g, w)))"
  using assms by (auto simp: handleErrors_def call_def Let_def)

lemma handleErrors_none:
  assumes "cancel g = None"
  shows "handleErrors g e w =
     (if threshold g = 0 \<or> int (length (errs g)) < threshold g
      then Inr (g\<lparr>errs := errs g @ [e]\<rparr>, w)
      else Inr (g, w))"
  using assms by (auto simp: handleErrors_def call_def Let_def)

lemma handleErrors_errs:
  "\<exists>w'. handleErrors g e w =
     Inr (if threshold g = 0 \<or> int (length (errs g)) < threshold g
          then g\<lparr>errs := errs g @ [e]\<rparr> else g, w')"
  by (cases "cancel g") (auto simp: handleErrors_some handleErrors_none)

subsection \<open>Sequences of error reports\<close>

lemma report_errors_count:
  assumes "threshold g = int t" "0 < t" "cancel g = Some c" "length (errs g) \<le> t"
  shows "report_errors g es w =
     Inr (g\<lparr>errs := errs g @ take (t - length (errs g)) es\<rparr>,
          w\<lparr>cancel_calls := cancel_calls w @
              replicate (length es + 1 - max 1 (t - length (errs g))) c\<rparr>)"
  using assms
proof (induction es arbitrary: g w)
  case Nil
  then show ?case by simp
next
  case (Cons e es)
  let ?k = "length (errs g)"
  let ?wc = "w\<lparr>cancel_calls := cancel_calls w @ [c]\<rparr>"
  show ?case
  proof (cases "?k < t")
    case below: True
    let ?g1 = "g\<lparr>errs := errs g @ [e]\<rparr>"
    have tk: "errs g @ take (t - ?k) (e # es) = errs ?g1 @ take (t - length (errs ?g1)) es"
    proof -
      have "t - ?k = Suc (t - Suc ?k)" using below by simp
      then have "take (t - ?k) (e # es) = e # take (t - Suc ?k) es" by simp
      then show ?thesis by simp
    qed
    show ?thesis
    proof (cases "?k + 1 = t")
      case True
      have h: "handleErrors g e w = Inr (?g1, ?wc)"
        using Cons.prems below True by (simp add: handleErrors_some)
      have ih: "report_errors ?g1 es ?wc =
           Inr (?g1\<lparr>errs := errs ?g1 @ take (t - length (errs ?g1)) es\<rparr>,
                ?wc\<lparr>cancel_calls := cancel_calls ?wc @
                  replicate (length es + 1 - max 1 (t - length (errs ?g1))) c\<rparr>)"
        by (rule Cons.IH) (use Cons.prems below in simp_all)
      have cnt: "length (e # es) + 1 - max 1 (t - ?k)
                   = Suc (length es + 1 - max 1 (t - length (errs ?g1)))"
        using True by auto
      show ?thesis
        by (subst cnt, subst tk) (simp add: h ih replicate_append_same)
    next
      case False
      have h: "handleErrors g e w = Inr (?g1, w)"
        using Cons.prems below False by (simp add: handleErrors_some)
      have ih: "report_errors ?g1 es w =
           Inr (?g1\<lparr>errs := errs ?g1 @ take (t - length (errs ?g1)) es\<rparr>,
                w\<lparr>cancel_calls := cancel_calls w @
                  replicate (length es + 1 - max 1 (t - length (errs ?g1))) c\<rparr>)"
        by (rule Cons.IH) (use Cons.prems below in simp_all)
      have cnt: "length (e # es) + 1 - max 1 (t - ?k)
                   = length es + 1 - max 1 (t - length (errs ?g1))"
        using below False by auto
      show ?thesis
        by (subst cnt, subst tk) (simp add: h ih)
    qed
  next
    case False
    then have eq: "?k = t" using Cons.prems by simp
    have h: "handleErrors g e w = Inr (g, ?wc)"
      using Cons.prems eq by (simp add: handleErrors_some)
    have ih: "report_errors g es ?wc =
           Inr (g\<lparr>errs := errs g @ take (t - ?k) es\<rparr>,
                ?wc\<lparr>cancel_calls := cancel_calls ?wc @
                  replicate (length es + 1 - max 1 (t - ?k)) c\<rparr>)"
      by (rule Cons.IH) (use Cons.prems in simp_all)
    have cnt: "length (e # es) + 1 - max 1 (t - ?k) = Suc (length es + 1 - max 1 (t - ?k))"
      using eq by auto
    have tk: "take (t - ?k) (e # es) = take (t - ?k) es"
      using eq by simp
    show ?thesis
      by (subst cnt, subst tk) (simp add: h ih replicate_append_same)
  qed
qed


lemma report_errors_errs:
  assumes "0 < threshold g" "int (length (errs g)) \<le> threshold g"
  shows "\<exists>w'. report_errors g es w =
     Inr (g\<lparr>errs := errs g @ take (nat (threshold g) - length (errs g)) es\<rparr>, w')"
  using assms
proof (induction es arbitrary: g w)
  case Nil
  then show ?case by simp
next
  case (Cons e es)
  let ?t = "nat (threshold g)"
  let ?k = "length (errs g)"
  show ?case
  proof (cases "int ?k < threshold g")
    case True
    let ?g1 = "g\<lparr>errs := errs g @ [e]\<rparr>"
    obtain w1 where h: "handleErrors g e w = Inr (?g1, w1)"
      using handleErrors_errs [of g e w] True by auto
    obtain w' where ih: "report_errors ?g1 es w1 =
        Inr (?g1\<lparr>errs := errs ?g1 @ take (nat (threshold ?g1) - length (errs ?g1)) es\<rparr>, w')"
      using Cons.IH [of ?g1 w1] Cons.prems True by auto
    have "?t - ?k = Suc (?t - Suc ?k)" using True by linarith
    then have tk: "take (?t - ?k) (e # es) = e # take (?t - Suc ?k) es" by simp
    show ?thesis by (subst tk) (simp add: h ih)
  next
    case False
    then have eq: "?t - ?k = 0" using Cons.prems by simp
    obtain w1 where h: "handleErrors g e w = Inr (g, w1)"
      using handleErrors_errs [of g e w] False Cons.prems by auto
    obtain w' where ih: "report_errors g es w1 =
        Inr (g\<lparr>errs := errs g @ take (?t - ?k) es\<rparr>, w')"
      using Cons.IH [of g w1] Cons.prems by auto
    show ?thesis using eq by (simp add: h ih)
  qed
qed

lemma report_errors_unlimited:
  "threshold g = 0 \<Longrightarrow> report_errors g es w = Inr (g\<lparr>errs := errs g @ es\<rparr>, w)"
proof (induction es arbitrary: g)
  case Nil
  then show ?case by simp
next
  case (Cons e es)
  have h: "handleErrors g e w = Inr (g\<lparr>errs := errs g @ [e]\<rparr>, w)"
    using Cons.prems by (simp add: handleErrors_def Let_def)
  show ?case using Cons.IH [of "g\<lparr>errs := errs g @ [e]\<rparr>"] Cons.prems by (simp add: h)
qed

subsection \<open>Wait, launches and completions\<close>

lemma Wait_returns:
  assumes "wg g = 0"
  shows "Wait g w =
     Some (Inr ((results g, if errs g = [] then None else Some (MultiError (errs g))),
                case cancel g of None \<Rightarrow> w
                | Some c \<Rightarrow> w\<lparr>cancel_calls := cancel_calls w @ [c]\<rparr>))"
  using assms by (cases "cancel g") (simp_all add: Wait_def call_def)

lemma launch_wg: "launch n g = g\<lparr>wg := wg g + n\<rparr>"
  by (induction n arbitrary: g) (simp_all add: Go_def)

lemma goroutine_nil:
  "0 < wg g \<Longrightarrow>
   goroutine g (res, None) w = Inr (g\<lparr>results := results g @ res, wg := wg g - 1\<rparr>, w)"
  by (simp add: goroutine_def processResult_def appendResults_def wg_Done_def)

lemma complete_nil:
  assumes "\<forall>u\<in>set outs. snd u = None" "length outs \<le> wg g"
  shows "complete g outs w =
     Inr (g\<lparr>results := results g @ concat (map fst outs), wg := wg g - length outs\<rparr>, w)"
  using assms
proof (induction outs arbitrary: g)
  case Nil
  then show ?case by simp
next
  case (Cons u outs)
  obtain res where u: "u = (res, None)" using Cons.prems(1) by (cases u) simp
  let ?g1 = "g\<lparr>results := results g @ res, wg := wg g - 1\<rparr>"
  have h: "goroutine g (res, None) w = Inr (?g1, w)"
    using Cons.prems(2) by (simp add: goroutine_nil)
  have ih: "complete ?g1 outs w =
     Inr (?g1\<lparr>results := results ?g1 @ concat (map fst outs), wg := wg ?g1 - length outs\<rparr>, w)"
    by (rule Cons.IH) (use Cons.prems in simp_all)
  show ?case unfolding u using ih by (simp add: h)
qed

lemma mset_concat_perm:
  assumes "mset order = mset units"
  shows "mset (concat (map fst order)) = sum_list (map (\<lambda>u. mset (fst u)) units)"
proof -
  have "mset (concat (map fst order)) = sum_mset (image_mset (\<lambda>u. mset (fst u)) (mset order))"
    by (simp add: mset_concat comp_def flip: sum_mset_sum_list)
  also have "\<dots> = sum_mset (image_mset (\<lambda>u. mset (fst u)) (mset units))"
    by (simp add: assms)
  also have "\<dots> = sum_list (map (\<lambda>u. mset (fst u)) units)"
    by (simp flip: sum_mset_sum_list)
  finally show ?thesis .
qed

section \<open>The aggregate error's message\<close>

lemma Error_loop_pos:
  "0 < i \<Longrightarrow> Error_loop msg i es b = b @ concat (map (\<lambda>e. CHR 0x0A # msg e) es)"
  by (induction es arbitrary: i b) simp_all

lemma join_newline_Cons:
  "join_newline (m # ms) = m @ concat (map (\<lambda>n. CHR 0x0A # n) ms)"
  by (induction ms arbitrary: m) simp_all

lemma Error_loop_zero:
  "Error_loop msg 0 (e # es) [] = join_newline (map msg (e # es))"
  by (simp add: Error_loop_pos join_newline_Cons map_map comp_def del: join_newline.simps)

text \<open>
  C9. The message of a multiError is its components' messages joined by one newline
  between neighbours, in recorded order: nothing follows the last component, and a
  single component gives its own message.
\<close>

theorem Error_joins_with_newline:
  "Error msg (MultiError es) = join_newline (map msg es)
   \<and> Error msg (MultiError [e]) = msg e"
proof (cases es)
  case Nil
  then show ?thesis by (simp add: Error_def)
next
  case (Cons x xs)
  then show ?thesis using Error_loop_zero [of msg x xs] by (simp add: Error_def)
qed

theorem Error_joins_with_newline_witness:
  "Error (\<lambda>e. e) (MultiError [''Error 1'', ''Error 2'', ''Error 3''])
     = ''Error 1'' @ [CHR 0x0A] @ ''Error 2'' @ [CHR 0x0A] @ ''Error 3''
   \<and> Error (\<lambda>e. e) (MultiError [''Error 1'']) = ''Error 1''"
  using Error_joins_with_newline [of "\<lambda>e. e" "[''Error 1'', ''Error 2'', ''Error 3'']" "''Error 1''"]
  by simp

section \<open>The error-handling path\<close>

text \<open>
  C1. For a Group made by \<open>WithErrorsThreshold\<close>, \<open>handleErrors\<close> invokes the
  cancellation trigger on an error report exactly when, after handling it, the number
  of recorded errors equals the threshold: never on a report before the crossing
  point, once on the report whose append reaches the threshold, and once more on every
  later report, whose error is dropped while the length stays at the threshold. After
  \<open>n\<close> reports the trigger has run \<open>n + 1 - threshold\<close> times (none while
  \<open>n < threshold\<close>), and the recorded errors are the first \<open>threshold\<close> ones.
\<close>

theorem handleErrors_triggers_from_crossing:
  assumes "WithErrorsThreshold ctx t w0 = Inr (g0, ctx', w1)"
  shows "\<exists>c. cancel g0 = Some c
     \<and> report_errors g0 es w1 =
         Inr (g0\<lparr>errs := take (nat t) es\<rparr>,
              w1\<lparr>cancel_calls := cancel_calls w1 @ replicate (length es + 1 - nat t) c\<rparr>)"
proof -
  from assms have t: "1 \<le> t"
    by (simp add: WithErrorsThreshold_def split: if_splits)
  from assms t have g0: "errs g0 = []" "threshold g0 = int (nat t)"
    "cancel g0 = Some (CancelFunc (next_ctx w0))"
    by (auto simp: WithErrorsThreshold_def context_WithCancel_def)
  have "report_errors g0 es w1 =
     Inr (g0\<lparr>errs := errs g0 @ take (nat t - length (errs g0)) es\<rparr>,
          w1\<lparr>cancel_calls := cancel_calls w1 @
              replicate (length es + 1 - max 1 (nat t - length (errs g0)))
                (CancelFunc (next_ctx w0))\<rparr>)"
    by (rule report_errors_count) (use g0 t in simp_all)
  moreover have "max 1 (nat t) = nat t" using t by simp
  ultimately show ?thesis using g0 by simp
qed

theorem handleErrors_triggers_from_crossing_witness:
  "WithErrorsThreshold Background 2 \<lparr>next_ctx = 0, cancel_calls = []\<rparr>
     = Inr (\<lparr>errs = [], wg = 0, cancel = Some (CancelFunc 0), threshold = 2, results = []\<rparr>
              :: (string, nat) Group,
            WithCancelCtx 0 Background, \<lparr>next_ctx = 1, cancel_calls = []\<rparr>)
   \<and> report_errors
        (\<lparr>errs = [], wg = 0, cancel = Some (CancelFunc 0), threshold = 2, results = []\<rparr>
           :: (string, nat) Group)
        [''Error 1'', ''Error 2'', ''Error 3''] \<lparr>next_ctx = 1, cancel_calls = []\<rparr>
     = Inr (\<lparr>errs = [''Error 1'', ''Error 2''], wg = 0, cancel = Some (CancelFunc 0),
              threshold = 2, results = []\<rparr>,
            \<lparr>next_ctx = 1, cancel_calls = [CancelFunc 0, CancelFunc 0]\<rparr>)"
proof -
  have h: "WithErrorsThreshold Background 2 \<lparr>next_ctx = 0, cancel_calls = []\<rparr>
     = Inr (\<lparr>errs = [], wg = 0, cancel = Some (CancelFunc 0), threshold = 2, results = []\<rparr>
              :: (string, nat) Group,
            WithCancelCtx 0 Background, \<lparr>next_ctx = 1, cancel_calls = []\<rparr>)"
    by (simp add: WithErrorsThreshold_def context_WithCancel_def)
  show ?thesis
    using h handleErrors_triggers_from_crossing
      [OF h, of "[''Error 1'', ''Error 2'', ''Error 3'']"]
    by (simp add: numeral_2_eq_2)
qed

text \<open>
  With threshold 1 the first report reaches the threshold and runs the trigger; the
  second report, arriving after the threshold has been reached, is dropped and runs the
  trigger again.
\<close>

theorem handleErrors_retriggers_counterexample:
  "report_errors
     (\<lparr>errs = [], wg = 0, cancel = Some (CancelFunc 0), threshold = 1, results = []\<rparr>
        :: (string, nat) Group)
     [''Error 1''] \<lparr>next_ctx = 1, cancel_calls = []\<rparr>
   = Inr (\<lparr>errs = [''Error 1''], wg = 0, cancel = Some (CancelFunc 0), threshold = 1,
            results = []\<rparr>,
          \<lparr>next_ctx = 1, cancel_calls = [CancelFunc 0]\<rparr>)
   \<and> handleErrors
     (\<lparr>errs = [''Error 1''], wg = 0, cancel = Some (CancelFunc 0), threshold = 1,
        results = []\<rparr> :: (string, nat) Group)
     ''Error 2'' \<lparr>next_ctx = 1, cancel_calls = [CancelFunc 0]\<rparr>
   = Inr (\<lparr>errs = [''Error 1''], wg = 0, cancel = Some (CancelFunc 0), threshold = 1,
            results = []\<rparr>,
          \<lparr>next_ctx = 1, cancel_calls = [CancelFunc 0, CancelFunc 0]\<rparr>)"
  by (simp add: handleErrors_def call_def Let_def)

text \<open>
  C2. With a threshold above zero the recorded errors never outnumber the threshold,
  whatever sequence of error reports \<open>handleErrors\<close> receives: a report is appended
  only while fewer than \<open>threshold\<close> errors are recorded, and the reports beyond the
  cap are dropped.
\<close>

theorem errs_capped_at_threshold:
  assumes "0 < threshold g" "int (length (errs g)) \<le> threshold g"
  shows "\<exists>g' w'. report_errors g es w = Inr (g', w')
     \<and> int (length (errs g')) \<le> threshold g' \<and> threshold g' = threshold g
     \<and> errs g' = errs g @ take (nat (threshold g) - length (errs g)) es"
proof -
  obtain w' where
    "report_errors g es w =
       Inr (g\<lparr>errs := errs g @ take (nat (threshold g) - length (errs g)) es\<rparr>, w')"
    using report_errors_errs [OF assms] by blast
  moreover have
    "int (length (errs g @ take (nat (threshold g) - length (errs g)) es)) \<le> threshold g"
    using assms by simp
  ultimately show ?thesis by simp
qed

theorem errs_capped_at_threshold_witness:
  "0 < threshold (\<lparr>errs = [], wg = 0, cancel = Some (CancelFunc 0), threshold = 2,
        results = []\<rparr> :: (string, nat) Group)
   \<and> report_errors
        (\<lparr>errs = [], wg = 0, cancel = Some (CancelFunc 0), threshold = 2, results = []\<rparr>
           :: (string, nat) Group)
        [''Error 1'', ''Error 2'', ''Error 3''] \<lparr>next_ctx = 1, cancel_calls = []\<rparr>
     = Inr (\<lparr>errs = [''Error 1'', ''Error 2''], wg = 0, cancel = Some (CancelFunc 0),
              threshold = 2, results = []\<rparr>,
            \<lparr>next_ctx = 1, cancel_calls = [CancelFunc 0, CancelFunc 0]\<rparr>)"
  using errs_capped_at_threshold
    [of "\<lparr>errs = [], wg = 0, cancel = Some (CancelFunc 0), threshold = 2, results = []\<rparr>
           :: (string, nat) Group"
        "[''Error 1'', ''Error 2'', ''Error 3'']" "\<lparr>next_ctx = 1, cancel_calls = []\<rparr>"]
  by (simp add: handleErrors_def call_def Let_def)

end
